theory Spec2Isabelle
  imports Main "HOL-Library.AList"
begin

section \<open>Data model\<close>

text \<open>
  The exceptions the modelled code raises. \<open>TypeError\<close>, \<open>KeyError\<close>, \<open>AttributeError\<close>
  and \<open>RuntimeError\<close> are Python's own; \<open>NotFoundError\<close> is
  \<^verbatim>\<open>foundation/exceptions.py\<close>, \<open>InvalidMessageTypeError\<close> is \<^verbatim>\<open>messagebus.py\<close>.
\<close>

datatype error =
  TypeError | KeyError | AttributeError | RuntimeError | NotFoundError | InvalidMessageTypeError

text \<open>\<^verbatim>\<open>core/domain/events.py\<close>: the three event dataclasses and their classes.\<close>

datatype event =
  RegisterDeviceEvent string string string int int
| RemoveDeviceEvent string
| KeepAliveDeviceEvent string int

datatype event_type = RegisterDeviceEvent_t | RemoveDeviceEvent_t | KeepAliveDeviceEvent_t

fun type_of_event :: "event \<Rightarrow> event_type" where
  "type_of_event (RegisterDeviceEvent u n l t f) = RegisterDeviceEvent_t"
| "type_of_event (RemoveDeviceEvent u) = RemoveDeviceEvent_t"
| "type_of_event (KeepAliveDeviceEvent u f) = KeepAliveDeviceEvent_t"

text \<open>\<^verbatim>\<open>core/domain/commands.py\<close>: the four command dataclasses and their classes.\<close>

datatype command =
  RegisterDeviceCommand string string string int
| RemoveDeviceCommand string
| KeepAliveDeviceCommand string
| ConsumerCommand string string

datatype command_type =
  RegisterDeviceCommand_t | RemoveDeviceCommand_t | KeepAliveDeviceCommand_t | ConsumerCommand_t

fun type_of_command :: "command \<Rightarrow> command_type" where
  "type_of_command (RegisterDeviceCommand u n l t) = RegisterDeviceCommand_t"
| "type_of_command (RemoveDeviceCommand u) = RemoveDeviceCommand_t"
| "type_of_command (KeepAliveDeviceCommand u) = KeepAliveDeviceCommand_t"
| "type_of_command (ConsumerCommand u c) = ConsumerCommand_t"

text \<open>Every command class has the attribute \<open>uuid\<close>.\<close>

fun cmd_uuid :: "command \<Rightarrow> string" where
  "cmd_uuid (RegisterDeviceCommand u n l t) = u"
| "cmd_uuid (RemoveDeviceCommand u) = u"
| "cmd_uuid (KeepAliveDeviceCommand u) = u"
| "cmd_uuid (ConsumerCommand u c) = u"

text \<open>
  \<^verbatim>\<open>core/domain/model.py\<close>, class \<open>Device\<close>. A device is a mutable object: the
  repository, the unit of work's backup and the handlers' local variables hold references
  to it, so the model keeps the objects in a heap and passes references.
\<close>

record device =
  uuid :: string
  name :: string
  last_will :: string
  ttl :: int
  created_at :: int
  fire_at :: int
  consumer_id :: "string option"
  consumed :: bool
  events :: "event list"
  version_number :: int

type_synonym ref = nat

text \<open>
  The values handed to \<open>Device.__init__\<close> as \<open>created_at\<close>: an integer, or a
  \<open>datetime\<close> object (carried with its POSIX timestamp). Python's \<open>+\<close> of a
  \<open>datetime\<close> and an \<open>int\<close> raises \<open>TypeError\<close>.
\<close>

datatype pyval = IntV int | DatetimeV int

fun py_add :: "pyval \<Rightarrow> int \<Rightarrow> error + int" where
  "py_add (IntV a) b = Inr (a + b)"
| "py_add (DatetimeV a) b = Inl TypeError"

text \<open>
  \<open>Device.__init__\<close>: \<open>self.fire_at = created_at + self.ttl\<close>; the optional
  arguments keep their defaults, the event list starts empty. When the addition raises,
  no object is returned; when it succeeds \<open>created_at\<close> was an integer.
\<close>

definition Device_init :: "string \<Rightarrow> string \<Rightarrow> string \<Rightarrow> int \<Rightarrow> pyval \<Rightarrow> error + device" where
  "Device_init u n l t c =
     (case py_add c t of
        Inl e \<Rightarrow> Inl e
      | Inr f \<Rightarrow>
          Inr \<lparr>uuid = u, name = n, last_will = l, ttl = t,
               created_at = (case c of IntV a \<Rightarrow> a | DatetimeV a \<Rightarrow> a),
               fire_at = f, consumer_id = None, consumed = False, events = [],
               version_number = 0\<rparr>)"

text \<open>The lines the code writes with \<open>logger.info\<close> and \<open>logger.exception\<close>
  (\<open>logger.debug\<close> lines are left out).\<close>

datatype log_entry =
  Info_event_handler event
| Exception_handling_event event
| Exception_handling_command command
| LWT_Triggered string int string

text \<open>
  The process state: the heap of \<open>Device\<close> objects and the shared
  \<open>InMemoryDeviceRepository\<close> (\<^verbatim>\<open>core/repository.py\<close>): the set \<open>seen\<close> of the
  abstract class, the dict \<open>by_uuid\<close> (insertion-ordered, so an association list)
  and the \<open>defaultdict(set)\<close> \<open>by_fire_at\<close>. A bucket is a Python set of uuids; its
  iteration order is not fixed by the language, the model keeps a duplicate-free list in
  insertion order. \<open>seen\<close> is a set of devices, which hash and compare by uuid.
\<close>

record world =
  heap :: "ref \<Rightarrow> device"
  next_ref :: ref
  seen :: "ref list"
  by_uuid :: "(string \<times> ref) list"
  by_fire_at :: "int \<rightharpoonup> string list"
  log :: "log_entry list"

definition alloc :: "device \<Rightarrow> world \<Rightarrow> ref \<times> world" where
  "alloc d w = (next_ref w, w\<lparr>heap := (heap w)(next_ref w := d), next_ref := Suc (next_ref w)\<rparr>)"

section \<open>The in-memory repository\<close>

definition bucket_add :: "string \<Rightarrow> string list \<Rightarrow> string list" where
  "bucket_add u b = (if u \<in> set b then b else b @ [u])"

definition bucket_discard :: "string \<Rightarrow> string list \<Rightarrow> string list" where
  "bucket_discard u b = removeAll u b"

text \<open>\<open>self.by_fire_at[t]\<close> on the defaultdict: a missing key reads as the empty set
  (and is inserted; every use below writes the bucket back or deletes it).\<close>

definition bucket_at :: "(int \<rightharpoonup> string list) \<Rightarrow> int \<Rightarrow> string list" where
  "bucket_at m t = (case m t of None \<Rightarrow> [] | Some b \<Rightarrow> b)"

text \<open>\<open>_add\<close>\<close>

definition inmem_add :: "ref \<Rightarrow> world \<Rightarrow> world" where
  "inmem_add r w =
     (let d = heap w r in
      w\<lparr>by_uuid := AList.update (uuid d) r (by_uuid w),
        by_fire_at := (by_fire_at w)(fire_at d \<mapsto> bucket_add (uuid d) (bucket_at (by_fire_at w) (fire_at d)))\<rparr>)"

text \<open>\<open>_get\<close>\<close>

definition inmem_get :: "string \<Rightarrow> world \<Rightarrow> ref option" where
  "inmem_get u w = map_of (by_uuid w) u"

text \<open>\<open>_get_fire_at_between\<close>: the loop over \<open>range(start, end + 1)\<close>. A
  \<open>Device\<close> defines neither \<open>__bool__\<close> nor \<open>__len__\<close>, so \<open>if device\<close> tests
  for \<open>None\<close> only.\<close>

fun scan_buckets :: "int list \<Rightarrow> ref list \<Rightarrow> world \<Rightarrow> ref list \<times> world" where
  "scan_buckets [] devices w = (devices, w)"
| "scan_buckets (ts # rest) devices w =
     scan_buckets rest
       (devices @ List.map_filter (\<lambda>u. inmem_get u w) (bucket_at (by_fire_at w) ts))
       (w\<lparr>by_fire_at := (by_fire_at w)(ts := None)\<rparr>)"

definition inmem_get_fire_at_between :: "int \<Rightarrow> int \<Rightarrow> world \<Rightarrow> ref list \<times> world" where
  "inmem_get_fire_at_between start end w = scan_buckets [start..end] [] w"

text \<open>
  The keyword arguments of \<open>update\<close>: a dict from attribute names to values. The
  positional parameter is itself called \<open>uuid\<close>, so a call cannot pass \<open>uuid\<close> as a
  keyword (Python raises \<open>TypeError\<close> before the body runs): the keys are the other
  attributes of a device.
\<close>

record fields =
  f_name :: "string option"
  f_last_will :: "string option"
  f_ttl :: "int option"
  f_created_at :: "int option"
  f_fire_at :: "int option"
  f_consumer_id :: "string option option"
  f_consumed :: "bool option"
  f_events :: "event list option"
  f_version_number :: "int option"

definition no_fields :: fields where
  "no_fields = \<lparr>f_name = None, f_last_will = None, f_ttl = None, f_created_at = None,
     f_fire_at = None, f_consumer_id = None, f_consumed = None, f_events = None,
     f_version_number = None\<rparr>"

text \<open>\<open>for key, value in fields.items(): setattr(device, key, value)\<close>\<close>

definition setattrs :: "fields \<Rightarrow> device \<Rightarrow> device" where
  "setattrs fs d =
     d\<lparr>name := (case f_name fs of None \<Rightarrow> name d | Some v \<Rightarrow> v),
       last_will := (case f_last_will fs of None \<Rightarrow> last_will d | Some v \<Rightarrow> v),
       ttl := (case f_ttl fs of None \<Rightarrow> ttl d | Some v \<Rightarrow> v),
       created_at := (case f_created_at fs of None \<Rightarrow> created_at d | Some v \<Rightarrow> v),
       fire_at := (case f_fire_at fs of None \<Rightarrow> fire_at d | Some v \<Rightarrow> v),
       consumer_id := (case f_consumer_id fs of None \<Rightarrow> consumer_id d | Some v \<Rightarrow> v),
       consumed := (case f_consumed fs of None \<Rightarrow> consumed d | Some v \<Rightarrow> v),
       events := (case f_events fs of None \<Rightarrow> events d | Some v \<Rightarrow> v),
       version_number := (case f_version_number fs of None \<Rightarrow> version_number d | Some v \<Rightarrow> v)\<rparr>"

text \<open>The three index statements of \<open>_update\<close> and \<open>_remove\<close>:
  \<open>by_fire_at[t].discard(uuid)\<close>, then \<open>if not by_fire_at[t]: del by_fire_at[t]\<close>.\<close>

definition discard_from :: "int \<Rightarrow> string \<Rightarrow> (int \<rightharpoonup> string list) \<Rightarrow> (int \<rightharpoonup> string list)" where
  "discard_from t u m =
     (let m1 = m(t \<mapsto> bucket_discard u (bucket_at m t))
      in if bucket_at m1 t = [] then m1(t := None) else m1)"

text \<open>\<open>_update\<close>\<close>

definition inmem_update :: "string \<Rightarrow> fields \<Rightarrow> world \<Rightarrow> world" where
  "inmem_update u fs w =
     (case map_of (by_uuid w) u of
        None \<Rightarrow> w
      | Some r \<Rightarrow>
          (let old_fire_at = fire_at (heap w r);
               w1 = w\<lparr>heap := (heap w)(r := setattrs fs (heap w r))\<rparr>
           in case f_fire_at fs of
                None \<Rightarrow> w1
              | Some new \<Rightarrow>
                  if new \<noteq> old_fire_at then
                    (let m = discard_from old_fire_at u (by_fire_at w1)
                     in w1\<lparr>by_fire_at := m(new \<mapsto> bucket_add u (bucket_at m new))\<rparr>)
                  else w1))"

text \<open>\<open>_remove\<close>\<close>

definition inmem_remove :: "string \<Rightarrow> world \<Rightarrow> world" where
  "inmem_remove u w =
     (case map_of (by_uuid w) u of
        None \<Rightarrow> w
      | Some r \<Rightarrow>
          w\<lparr>by_uuid := AList.delete u (by_uuid w),
            by_fire_at := discard_from (fire_at (heap w r)) u (by_fire_at w)\<rparr>)"

text \<open>\<open>_remove_all\<close>\<close>

definition inmem_remove_all :: "world \<Rightarrow> world" where
  "inmem_remove_all w = w\<lparr>by_uuid := [], by_fire_at := Map.empty\<rparr>"

subsection \<open>The public methods of the abstract repository\<close>

text \<open>\<open>self.seen.add(device)\<close>: the set keeps its element when an equal one (same
  uuid) is already in it.\<close>

definition seen_add :: "ref \<Rightarrow> world \<Rightarrow> world" where
  "seen_add r w =
     (if \<exists>r' \<in> set (seen w). uuid (heap w r') = uuid (heap w r) then w
      else w\<lparr>seen := seen w @ [r]\<rparr>)"

definition seen_add_all :: "ref list \<Rightarrow> world \<Rightarrow> world" where
  "seen_add_all rs w = fold seen_add rs w"

definition get :: "string \<Rightarrow> world \<Rightarrow> ref option \<times> world" where
  "get u w = (case inmem_get u w of None \<Rightarrow> (None, w) | Some r \<Rightarrow> (Some r, seen_add r w))"

definition get_all_by_uuid :: "world \<Rightarrow> (string \<times> ref) list \<times> world" where
  "get_all_by_uuid w =
     (by_uuid w, if by_uuid w \<noteq> [] then seen_add_all (map snd (by_uuid w)) w else w)"

definition get_fire_at_between :: "int \<Rightarrow> int \<Rightarrow> world \<Rightarrow> ref list \<times> world" where
  "get_fire_at_between start end w =
     (case inmem_get_fire_at_between start end w of
        (devices, w1) \<Rightarrow> (devices, if devices \<noteq> [] then seen_add_all devices w1 else w1))"

definition add :: "ref \<Rightarrow> world \<Rightarrow> world" where
  "add r w = seen_add r (inmem_add r w)"

definition update :: "string \<Rightarrow> fields \<Rightarrow> world \<Rightarrow> world" where
  "update u fs w =
     (case get u w of
        (None, w1) \<Rightarrow> w1
      | (Some r, w1) \<Rightarrow> seen_add r (inmem_update u fs w1))"

definition remove :: "string \<Rightarrow> world \<Rightarrow> world" where
  "remove u w =
     (case get u w of
        (None, w1) \<Rightarrow> w1
      | (Some r, w1) \<Rightarrow> seen_add r (inmem_remove u w1))"

text \<open>\<open>remove_all\<close>: \<open>devices\<close> is the dict \<open>by_uuid\<close> itself, so after
  \<open>_remove_all\<close> it is empty and the last \<open>seen.update\<close> adds nothing.\<close>

definition remove_all :: "world \<Rightarrow> world" where
  "remove_all w =
     (case get_all_by_uuid w of
        (devices, w1) \<Rightarrow> if devices \<noteq> [] then inmem_remove_all w1 else w1)"

section \<open>The unit of work\<close>

text \<open>
  \<^verbatim>\<open>core/service/unit_of_work.py\<close>: an \<open>InMemoryDeviceUnitOfWork\<close> holds the
  dict \<open>_backup\<close> and the attribute \<open>_devices\<close>, \<open>None\<close> until the first
  \<open>__enter__\<close>; \<open>_repository\<close> is the shared repository of the state. The backup is
  \<open>dict.copy()\<close>: a new dict holding the same device objects.
\<close>

record uow =
  backup :: "(string \<times> ref) list option"
  devices_bound :: bool

text \<open>\<open>InMemoryDeviceUnitOfWork.__init__\<close>\<close>

definition new_uow :: uow where
  "new_uow = \<lparr>backup = Some [], devices_bound = False\<rparr>"

text \<open>\<open>__enter__\<close>\<close>

definition uow_enter :: "uow \<times> world \<Rightarrow> uow \<times> world" where
  "uow_enter s =
     (case s of (u, w) \<Rightarrow>
        (case get_all_by_uuid w of
           (devices, w1) \<Rightarrow> (u\<lparr>backup := Some devices, devices_bound := True\<rparr>, w1)))"

text \<open>\<open>commit\<close> calls \<open>_commit\<close>, whose body is empty.\<close>

definition commit :: "uow \<times> world \<Rightarrow> uow \<times> world" where
  "commit s = s"

text \<open>\<open>rollback\<close>\<close>

definition rollback :: "uow \<times> world \<Rightarrow> uow \<times> world" where
  "rollback s =
     (case s of (u, w) \<Rightarrow>
        (case backup u of
           None \<Rightarrow> (u, w)
         | Some b \<Rightarrow> (u, fold add (map snd b) (remove_all w))))"

text \<open>\<open>__exit__\<close>: \<open>AbstractUnitOfWork.__exit__\<close> calls \<open>self.rollback()\<close> and
  returns \<open>None\<close>, so an exception of the scope goes on after it.\<close>

definition uow_exit :: "uow \<times> world \<Rightarrow> uow \<times> world" where
  "uow_exit s = rollback s"

text \<open>
  \<open>collect_new_events\<close>, run to its end as \<open>queue.extend\<close> does: the property
  \<open>devices\<close> raises \<open>RuntimeError\<close> while \<open>_devices\<close> is \<open>None\<close>; otherwise the
  events of every seen device are popped in order.
\<close>

fun drain_events :: "ref list \<Rightarrow> event list \<Rightarrow> world \<Rightarrow> event list \<times> world" where
  "drain_events [] acc w = (acc, w)"
| "drain_events (r # rs) acc w =
     drain_events rs (acc @ events (heap w r))
       (w\<lparr>heap := (heap w)(r := (heap w r)\<lparr>events := []\<rparr>)\<rparr>)"

definition collect_new_events :: "uow \<times> world \<Rightarrow> error + (event list \<times> (uow \<times> world))" where
  "collect_new_events s =
     (case s of (u, w) \<Rightarrow>
        if devices_bound u then
          (case drain_events (seen w) [] w of (evs, w1) \<Rightarrow> Inr (evs, (u, w1)))
        else Inl RuntimeError)"

section \<open>The aggregate's event methods\<close>

definition push_event :: "ref \<Rightarrow> event \<Rightarrow> world \<Rightarrow> world" where
  "push_event r ev w = w\<lparr>heap := (heap w)(r := (heap w r)\<lparr>events := events (heap w r) @ [ev]\<rparr>)\<rparr>"

definition generate_event_register_device :: "ref \<Rightarrow> world \<Rightarrow> world" where
  "generate_event_register_device r w =
     (let d = heap w r
      in push_event r (RegisterDeviceEvent (uuid d) (name d) (last_will d) (ttl d) (fire_at d)) w)"

definition generate_event_remove_device :: "ref \<Rightarrow> world \<Rightarrow> world" where
  "generate_event_remove_device r w = push_event r (RemoveDeviceEvent (uuid (heap w r))) w"

definition generate_event_keep_alive_device :: "ref \<Rightarrow> world \<Rightarrow> world" where
  "generate_event_keep_alive_device r w =
     (let d = heap w r in push_event r (KeepAliveDeviceEvent (uuid d) (fire_at d)) w)"

section \<open>Command handlers\<close>

text \<open>
  \<^verbatim>\<open>core/service/handlers/command_handlers.py\<close>. A handler returns the exception
  that leaves it, if any, and the state it leaves behind; \<open>now\<close> is the reading of the
  clock, the POSIX timestamp of \<open>get_utc_tz_aware_datetime(datetime.now())\<close>. Inside
  the scope \<open>uow.devices\<close> is bound.

  \<open>register_device\<close> passes the \<open>datetime\<close> object itself as \<open>created_at\<close>; a
  command without the attributes it reads raises \<open>AttributeError\<close>.
\<close>

definition register_device :: "int \<Rightarrow> command \<Rightarrow> uow \<times> world \<Rightarrow> error option \<times> (uow \<times> world)" where
  "register_device now cmd s =
     (case uow_enter s of (u, w) \<Rightarrow>
        (case cmd of
           RegisterDeviceCommand cu cn cl ct \<Rightarrow>
             (case Device_init cu cn cl ct (DatetimeV now) of
                Inl e \<Rightarrow> (Some e, uow_exit (u, w))
              | Inr d \<Rightarrow>
                  (case alloc d w of (r, w1) \<Rightarrow>
                     (None, uow_exit (commit (u, generate_event_register_device r (add r w1))))))
         | _ \<Rightarrow> (Some AttributeError, uow_exit (u, w))))"

definition remove_device :: "command \<Rightarrow> uow \<times> world \<Rightarrow> error option \<times> (uow \<times> world)" where
  "remove_device cmd s =
     (case uow_enter s of (u, w) \<Rightarrow>
        (case get (cmd_uuid cmd) w of
           (None, w1) \<Rightarrow> (Some NotFoundError, uow_exit (u, w1))
         | (Some r, w1) \<Rightarrow>
             (None, uow_exit (commit (u, generate_event_remove_device r (remove (uuid (heap w1 r)) w1))))))"

definition keep_alive_device :: "int \<Rightarrow> command \<Rightarrow> uow \<times> world \<Rightarrow> error option \<times> (uow \<times> world)" where
  "keep_alive_device now cmd s =
     (case uow_enter s of (u, w) \<Rightarrow>
        (case get (cmd_uuid cmd) w of
           (None, w1) \<Rightarrow> (Some NotFoundError, uow_exit (u, w1))
         | (Some r, w1) \<Rightarrow>
             (let params = no_fields\<lparr>f_fire_at := Some (now + ttl (heap w1 r))\<rparr>
              in (None, uow_exit (commit (u,
                    generate_event_keep_alive_device r (update (uuid (heap w1 r)) params w1)))))))"

section \<open>Event handlers\<close>

text \<open>\<^verbatim>\<open>core/service/handlers/event_handlers.py\<close>: each of the three writes one
  \<open>logger.info\<close> line.\<close>

definition register_device_event :: "event \<Rightarrow> uow \<times> world \<Rightarrow> error option \<times> (uow \<times> world)" where
  "register_device_event ev s =
     (case s of (u, w) \<Rightarrow> (None, (u, w\<lparr>log := log w @ [Info_event_handler ev]\<rparr>)))"

definition remove_device_event :: "event \<Rightarrow> uow \<times> world \<Rightarrow> error option \<times> (uow \<times> world)" where
  "remove_device_event ev s =
     (case s of (u, w) \<Rightarrow> (None, (u, w\<lparr>log := log w @ [Info_event_handler ev]\<rparr>)))"

definition keep_alive_device_event :: "event \<Rightarrow> uow \<times> world \<Rightarrow> error option \<times> (uow \<times> world)" where
  "keep_alive_device_event ev s =
     (case s of (u, w) \<Rightarrow> (None, (u, w\<lparr>log := log w @ [Info_event_handler ev]\<rparr>)))"

section \<open>The message bus\<close>

text \<open>
  \<^verbatim>\<open>messagebus.py\<close>. The bus holds two plain dicts keyed by the message's class, and
  the unit of work that \<open>bootstrap\<close> also injects into the handlers, so handlers and bus
  share one unit of work and one repository: the state \<open>uow \<times> world\<close>.
\<close>

type_synonym state = "uow \<times> world"

type_synonym event_handler = "event \<Rightarrow> state \<Rightarrow> error option \<times> state"

type_synonym command_handler = "command \<Rightarrow> state \<Rightarrow> error option \<times> state"

record bus =
  event_handlers :: "event_type \<rightharpoonup> event_handler list"
  command_handlers :: "command_type \<rightharpoonup> command_handler"

text \<open>A message is a command, an event, or an object that is neither.\<close>

datatype message = Cmd command | Evt event | Other

definition log_line :: "log_entry \<Rightarrow> state \<Rightarrow> state" where
  "log_line l s = (case s of (u, w) \<Rightarrow> (u, w\<lparr>log := log w @ [l]\<rparr>))"

text \<open>
  The body of the \<open>for\<close> loop of \<open>_handle_event\<close>: the handler and the collection of
  the new events run inside \<open>try\<close>; \<open>except Exception\<close> logs and goes on with the
  next handler.
\<close>

fun run_event_handlers ::
  "event_handler list \<Rightarrow> event \<Rightarrow> message list \<Rightarrow> state \<Rightarrow> message list \<times> state" where
  "run_event_handlers [] ev queue s = (queue, s)"
| "run_event_handlers (handler # rest) ev queue s =
     (case handler ev s of
        (Some e, s1) \<Rightarrow> run_event_handlers rest ev queue (log_line (Exception_handling_event ev) s1)
      | (None, s1) \<Rightarrow>
          (case collect_new_events s1 of
             Inl e \<Rightarrow> run_event_handlers rest ev queue (log_line (Exception_handling_event ev) s1)
           | Inr (evs, s2) \<Rightarrow> run_event_handlers rest ev (queue @ map Evt evs) s2))"

text \<open>\<open>_handle_event\<close>: the lookup \<open>self.event_handlers[type(event)]\<close> stands
  outside the \<open>try\<close>; on a dict it raises \<open>KeyError\<close> for a missing key.\<close>

definition handle_event ::
  "bus \<Rightarrow> event \<Rightarrow> message list \<Rightarrow> state \<Rightarrow> error option \<times> message list \<times> state" where
  "handle_event b ev queue s =
     (case event_handlers b (type_of_event ev) of
        None \<Rightarrow> (Some KeyError, queue, s)
      | Some handlers \<Rightarrow> (None, run_event_handlers handlers ev queue s))"

text \<open>\<open>_handle_command\<close>: lookup, handler and collection stand inside the \<open>try\<close>;
  \<open>except Exception\<close> logs and raises again.\<close>

definition handle_command ::
  "bus \<Rightarrow> command \<Rightarrow> message list \<Rightarrow> state \<Rightarrow> error option \<times> message list \<times> state" where
  "handle_command b c queue s =
     (case command_handlers b (type_of_command c) of
        None \<Rightarrow> (Some KeyError, queue, log_line (Exception_handling_command c) s)
      | Some handler \<Rightarrow>
          (case handler c s of
             (Some e, s1) \<Rightarrow> (Some e, queue, log_line (Exception_handling_command c) s1)
           | (None, s1) \<Rightarrow>
               (case collect_new_events s1 of
                  Inl e \<Rightarrow> (Some e, queue, log_line (Exception_handling_command c) s1)
                | Inr (evs, s2) \<Rightarrow> (None, queue @ map Evt evs, s2))))"

text \<open>
  \<open>handle\<close>: the \<open>while self.queue\<close> loop. Handlers may queue events without end,
  so the loop is a partial function: \<open>None\<close> is a dispatch that never returns,
  \<open>Some (Some e, s)\<close> one that raises \<open>e\<close>, \<open>Some (None, s)\<close> one that returns.
\<close>

partial_function (option) handle_loop ::
  "bus \<Rightarrow> message list \<Rightarrow> state \<Rightarrow> (error option \<times> state) option" where
  "handle_loop b queue s =
     (case queue of
        [] \<Rightarrow> Some (None, s)
      | message # rest \<Rightarrow>
          (case message of
             Evt ev \<Rightarrow>
               (case handle_event b ev rest s of
                  (Some e, queue1, s1) \<Rightarrow> Some (Some e, s1)
                | (None, queue1, s1) \<Rightarrow> handle_loop b queue1 s1)
           | Cmd c \<Rightarrow>
               (case handle_command b c rest s of
                  (Some e, queue1, s1) \<Rightarrow> Some (Some e, s1)
                | (None, queue1, s1) \<Rightarrow> handle_loop b queue1 s1)
           | Other \<Rightarrow> Some (Some InvalidMessageTypeError, s)))"

declare handle_loop.simps [code]

definition handle :: "bus \<Rightarrow> message \<Rightarrow> state \<Rightarrow> (error option \<times> state) option" where
  "handle b message s = handle_loop b [message] s"

section \<open>Bootstrap\<close>

text \<open>\<^verbatim>\<open>bootstrap.py\<close>: the two handler mappings, as the module writes them.\<close>

definition EVENT_HANDLERS :: "event_type \<rightharpoonup> event_handler list" where
  "EVENT_HANDLERS =
     [RegisterDeviceEvent_t \<mapsto> [register_device_event],
      RemoveDeviceEvent_t \<mapsto> [remove_device_event],
      KeepAliveDeviceEvent_t \<mapsto> [keep_alive_device_event]]"

definition COMMAND_HANDLERS :: "int \<Rightarrow> command_type \<rightharpoonup> command_handler" where
  "COMMAND_HANDLERS now =
     [RegisterDeviceCommand_t \<mapsto> register_device now,
      ConsumerCommand_t \<mapsto> remove_device,
      KeepAliveDeviceCommand_t \<mapsto> keep_alive_device now]"

definition bootstrap :: "int \<Rightarrow> bus" where
  "bootstrap now = \<lparr>event_handlers = EVENT_HANDLERS, command_handlers = COMMAND_HANDLERS now\<rparr>"

section \<open>The expiry poller\<close>




section \<open>Invariants of the repository\<close>

text \<open>
  \<open>keyed\<close>: \<open>by_uuid\<close> is a dict (no key twice) and files every device under its
  own uuid. \<open>index_sound\<close>: every uuid in the bucket \<open>by_fire_at[t]\<close> is a key of
  \<open>by_uuid\<close> whose device has \<open>fire_at = t\<close>. \<open>no_empty_bucket\<close>: no bucket is the
  empty set. \<open>index_complete\<close>: every stored device is in the bucket of its
  \<open>fire_at\<close>.
\<close>

definition keyed :: "world \<Rightarrow> bool" where
  "keyed w \<longleftrightarrow>
     distinct (map fst (by_uuid w)) \<and> (\<forall>(u, r) \<in> set (by_uuid w). uuid (heap w r) = u)"

definition index_sound :: "world \<Rightarrow> bool" where
  "index_sound w \<longleftrightarrow>
     (\<forall>t b. by_fire_at w t = Some b \<longrightarrow>
        (\<forall>u \<in> set b. \<exists>r. map_of (by_uuid w) u = Some r \<and> fire_at (heap w r) = t))"

definition no_empty_bucket :: "world \<Rightarrow> bool" where
  "no_empty_bucket w \<longleftrightarrow> (\<forall>t. by_fire_at w t \<noteq> Some [])"

definition index_complete :: "world \<Rightarrow> bool" where
  "index_complete w \<longleftrightarrow>
     (\<forall>u r. map_of (by_uuid w) u = Some r \<longrightarrow>
        u \<in> set (bucket_at (by_fire_at w) (fire_at (heap w r))))"

definition consistent :: "world \<Rightarrow> bool" where
  "consistent w \<longleftrightarrow> index_sound w \<and> no_empty_bucket w"

definition well_formed :: "world \<Rightarrow> bool" where
  "well_formed w \<longleftrightarrow> keyed w \<and> consistent w"

section \<open>Example states\<close>

text \<open>A device with \<open>ttl = 10\<close> registered at second 100, an empty repository in a
  process whose device object is at reference 0, and the repository after \<open>add\<close>.\<close>

definition device_a :: device where
  "device_a = \<lparr>uuid = ''a'', name = ''sensor'', last_will = ''offline'', ttl = 10,
     created_at = 100, fire_at = 110, consumer_id = None, consumed = False, events = [],
     version_number = 0\<rparr>"

definition empty_world :: world where
  "empty_world = \<lparr>heap = (\<lambda>r. device_a), next_ref = 1, seen = [], by_uuid = [],
     by_fire_at = Map.empty, log = []\<rparr>"

definition world_a :: world where
  "world_a = add 0 empty_world"

section \<open>Auxiliary notions for the claims\<close>

text \<open>A queue that holds events only.\<close>

definition events_only :: "message list \<Rightarrow> bool" where
  "events_only q \<longleftrightarrow> (\<forall>m \<in> set q. \<exists>ev. m = Evt ev)"

text \<open>
  The states of the repository that its public methods reach from the empty repository of
  \<open>__init__\<close>, \<open>add\<close> being called only with a device whose uuid is not yet a key of
  \<open>by_uuid\<close>. The device objects are those of the heap.
\<close>

inductive reachable :: "world \<Rightarrow> bool" where
  by_init: "seen w = [] \<Longrightarrow> by_uuid w = [] \<Longrightarrow> by_fire_at w = Map.empty \<Longrightarrow> reachable w"
| by_add: "reachable w \<Longrightarrow> map_of (by_uuid w) (uuid (heap w r)) = None \<Longrightarrow> reachable (add r w)"
| by_update: "reachable w \<Longrightarrow> reachable (update u fs w)"
| by_remove: "reachable w \<Longrightarrow> reachable (remove u w)"
| by_remove_all: "reachable w \<Longrightarrow> reachable (remove_all w)"
| by_get_fire_at_between: "reachable w \<Longrightarrow> reachable (snd (get_fire_at_between start end w))"
| by_get: "reachable w \<Longrightarrow> reachable (snd (get u w))"
| by_get_all_by_uuid: "reachable w \<Longrightarrow> reachable (snd (get_all_by_uuid w))"



section \<open>What each repository method reads and writes\<close>

lemma seen_add_frame [simp]:
  "heap (seen_add r w) = heap w" "by_uuid (seen_add r w) = by_uuid w"
  "by_fire_at (seen_add r w) = by_fire_at w" "next_ref (seen_add r w) = next_ref w"
  "log (seen_add r w) = log w"
  by (simp_all add: seen_add_def)

lemma seen_add_all_frame [simp]:
  "heap (seen_add_all rs w) = heap w" "by_uuid (seen_add_all rs w) = by_uuid w"
  "by_fire_at (seen_add_all rs w) = by_fire_at w" "next_ref (seen_add_all rs w) = next_ref w"
  "log (seen_add_all rs w) = log w"
  unfolding seen_add_all_def by (induction rs arbitrary: w; simp)+

lemma get_fst [simp]: "fst (get u w) = map_of (by_uuid w) u"
  by (simp add: get_def inmem_get_def split: option.splits)

lemma get_frame [simp]:
  "heap (snd (get u w)) = heap w" "by_uuid (snd (get u w)) = by_uuid w"
  "by_fire_at (snd (get u w)) = by_fire_at w" "log (snd (get u w)) = log w"
  by (simp_all add: get_def split: option.splits)

lemma get_all_by_uuid_fst [simp]: "fst (get_all_by_uuid w) = by_uuid w"
  by (simp add: get_all_by_uuid_def)

lemma get_all_by_uuid_frame [simp]:
  "heap (snd (get_all_by_uuid w)) = heap w" "by_uuid (snd (get_all_by_uuid w)) = by_uuid w"
  "by_fire_at (snd (get_all_by_uuid w)) = by_fire_at w" "log (snd (get_all_by_uuid w)) = log w"
  by (simp_all add: get_all_by_uuid_def)

lemma add_sel [simp]:
  "heap (add r w) = heap w"
  "by_uuid (add r w) = AList.update (uuid (heap w r)) r (by_uuid w)"
  "by_fire_at (add r w) = (by_fire_at w)(fire_at (heap w r) \<mapsto>
      bucket_add (uuid (heap w r)) (bucket_at (by_fire_at w) (fire_at (heap w r))))"
  "log (add r w) = log w"
  by (simp_all add: add_def inmem_add_def Let_def)

lemma remove_all_sel [simp]:
  "heap (remove_all w) = heap w"
  "by_uuid (remove_all w) = []"
  "by_fire_at (remove_all w) = (if by_uuid w = [] then by_fire_at w else Map.empty)"
  "log (remove_all w) = log w"
  by (simp_all add: remove_all_def inmem_remove_all_def get_all_by_uuid_def)

lemma delete_absent: "map_of al k = None \<Longrightarrow> AList.delete k al = al"
  by (induction al) (auto split: if_splits)

lemma remove_sel [simp]:
  "heap (remove u w) = heap w"
  "by_uuid (remove u w) = AList.delete u (by_uuid w)"
  "by_fire_at (remove u w) = (case map_of (by_uuid w) u of None \<Rightarrow> by_fire_at w
      | Some r \<Rightarrow> discard_from (fire_at (heap w r)) u (by_fire_at w))"
  "log (remove u w) = log w"
  by (simp_all add: remove_def inmem_remove_def get_def inmem_get_def delete_absent
      split: option.splits prod.splits)

lemma update_sel [simp]:
  "by_uuid (update u fs w) = by_uuid w"
  "log (update u fs w) = log w"
  "heap (update u fs w) = (case map_of (by_uuid w) u of None \<Rightarrow> heap w
      | Some r \<Rightarrow> (heap w)(r := setattrs fs (heap w r)))"
  "by_fire_at (update u fs w) = (case map_of (by_uuid w) u of None \<Rightarrow> by_fire_at w
      | Some r \<Rightarrow> (case f_fire_at fs of None \<Rightarrow> by_fire_at w
          | Some new \<Rightarrow> if new \<noteq> fire_at (heap w r) then
               (let m = discard_from (fire_at (heap w r)) u (by_fire_at w)
                in m(new \<mapsto> bucket_add u (bucket_at m new)))
             else by_fire_at w))"
  by (simp_all add: update_def inmem_update_def get_def inmem_get_def Let_def
      split: option.splits prod.splits)

lemma setattrs_uuid [simp]: "uuid (setattrs fs d) = uuid d"
  by (simp add: setattrs_def)

lemma setattrs_fire_at [simp]:
  "fire_at (setattrs fs d) = (case f_fire_at fs of None \<Rightarrow> fire_at d | Some v \<Rightarrow> v)"
  by (simp add: setattrs_def)

lemma scan_buckets_frame [simp]:
  "heap (snd (scan_buckets ts acc w)) = heap w"
  "by_uuid (snd (scan_buckets ts acc w)) = by_uuid w"
  "log (snd (scan_buckets ts acc w)) = log w"
  by (induction ts acc w rule: scan_buckets.induct; simp)+

lemma scan_buckets_index:
  "by_fire_at (snd (scan_buckets ts acc w)) = (\<lambda>t. if t \<in> set ts then None else by_fire_at w t)"
  by (induction ts acc w rule: scan_buckets.induct) (auto simp: fun_eq_iff)

lemma set_map_filter: "set (List.map_filter f xs) = {y. \<exists>x \<in> set xs. f x = Some y}"
  by (induction xs) (auto split: option.splits)

lemma bucket_at_upd_None [simp]:
  "bucket_at (m(ts := None)) t = (if t = ts then [] else bucket_at m t)"
  by (simp add: bucket_at_def)

lemma bucket_at_upd_Some [simp]:
  "bucket_at (m(ts \<mapsto> b)) t = (if t = ts then b else bucket_at m t)"
  by (simp add: bucket_at_def)

lemma scan_buckets_set:
  "set (fst (scan_buckets ts acc w)) =
     set acc \<union> {r. \<exists>t \<in> set ts. \<exists>u \<in> set (bucket_at (by_fire_at w) t). map_of (by_uuid w) u = Some r}"
proof (induction ts acc w rule: scan_buckets.induct)
  case (1 devices w)
  then show ?case by simp
next
  case (2 ts rest devices w)
  let ?w' = "w\<lparr>by_fire_at := (by_fire_at w)(ts := None)\<rparr>"
  let ?found = "List.map_filter (\<lambda>u. inmem_get u w) (bucket_at (by_fire_at w) ts)"
  have "set (fst (scan_buckets (ts # rest) devices w)) = set (fst (scan_buckets rest (devices @ ?found) ?w'))"
    by simp
  also have "\<dots> = set (devices @ ?found) \<union>
      {r. \<exists>t \<in> set rest. \<exists>u \<in> set (bucket_at (by_fire_at ?w') t). map_of (by_uuid ?w') u = Some r}"
    by (rule 2)
  also have "\<dots> = set devices \<union>
      {r. \<exists>t \<in> set (ts # rest). \<exists>u \<in> set (bucket_at (by_fire_at w) t). map_of (by_uuid w) u = Some r}"
    by (auto simp add: set_map_filter inmem_get_def)
  finally show ?case .
qed

lemma get_fire_at_between_frame [simp]:
  "heap (snd (get_fire_at_between s e w)) = heap w"
  "by_uuid (snd (get_fire_at_between s e w)) = by_uuid w"
  "log (snd (get_fire_at_between s e w)) = log w"
  by (simp_all add: get_fire_at_between_def inmem_get_fire_at_between_def split: prod.splits)
     (metis scan_buckets_frame snd_conv)+

lemma get_fire_at_between_index:
  "by_fire_at (snd (get_fire_at_between s e w)) = (\<lambda>t. if s \<le> t \<and> t \<le> e then None else by_fire_at w t)"
proof -
  have "by_fire_at (snd (get_fire_at_between s e w)) = by_fire_at (snd (scan_buckets [s..e] [] w))"
    by (simp add: get_fire_at_between_def inmem_get_fire_at_between_def split: prod.splits)
  then show ?thesis by (simp add: scan_buckets_index)
qed

lemma get_fire_at_between_set:
  "set (fst (get_fire_at_between s e w)) =
     {r. \<exists>t. s \<le> t \<and> t \<le> e \<and> (\<exists>u \<in> set (bucket_at (by_fire_at w) t). map_of (by_uuid w) u = Some r)}"
proof -
  have "fst (get_fire_at_between s e w) = fst (scan_buckets [s..e] [] w)"
    by (simp add: get_fire_at_between_def inmem_get_fire_at_between_def split: prod.splits)
  then show ?thesis by (auto simp add: scan_buckets_set)
qed

lemma get_fire_at_between_again:
  "fst (get_fire_at_between s e (snd (get_fire_at_between s e w))) = []"
proof -
  have "set (fst (get_fire_at_between s e (snd (get_fire_at_between s e w)))) = {}"
    by (auto simp add: get_fire_at_between_set get_fire_at_between_index bucket_at_def)
  then show ?thesis by simp
qed

lemma world_a_sel:
  "heap world_a = (\<lambda>r. device_a)"
  "by_uuid world_a = [(''a'', 0)]"
  "by_fire_at world_a = [110 \<mapsto> [''a'']]"
  by (simp_all add: world_a_def empty_world_def device_a_def bucket_add_def bucket_at_def)

lemma device_a_sel: "uuid device_a = ''a''" "fire_at device_a = 110" "ttl device_a = 10"
  by (simp_all add: device_a_def)

lemma world_a_sound: "index_sound world_a"
  by (simp add: index_sound_def world_a_sel device_a_sel)

lemma world_a_complete: "index_complete world_a"
  by (simp add: index_complete_def world_a_sel device_a_sel)

lemma get_fire_at_between_exact:
  assumes "index_sound w" and "index_complete w"
  shows "set (fst (get_fire_at_between s e w)) =
          {r. \<exists>u. map_of (by_uuid w) u = Some r \<and> s \<le> fire_at (heap w r) \<and> fire_at (heap w r) \<le> e}"
proof (rule set_eqI, rule iffI)
  fix r assume "r \<in> set (fst (get_fire_at_between s e w))"
  then obtain t u where t: "s \<le> t" "t \<le> e" and u: "u \<in> set (bucket_at (by_fire_at w) t)"
    and r: "map_of (by_uuid w) u = Some r"
    by (auto simp: get_fire_at_between_set)
  from u obtain b where b: "by_fire_at w t = Some b" "u \<in> set b"
    by (cases "by_fire_at w t") (auto simp: bucket_at_def)
  with assms(1) r have "fire_at (heap w r) = t"
    unfolding index_sound_def by fastforce
  with t r show "r \<in> {r. \<exists>u. map_of (by_uuid w) u = Some r \<and> s \<le> fire_at (heap w r) \<and> fire_at (heap w r) \<le> e}"
    by auto
next
  fix r assume "r \<in> {r. \<exists>u. map_of (by_uuid w) u = Some r \<and> s \<le> fire_at (heap w r) \<and> fire_at (heap w r) \<le> e}"
  then obtain u where r: "map_of (by_uuid w) u = Some r" and t: "s \<le> fire_at (heap w r)" "fire_at (heap w r) \<le> e"
    by auto
  from assms(2) r have "u \<in> set (bucket_at (by_fire_at w) (fire_at (heap w r)))"
    by (auto simp: index_complete_def)
  with r t show "r \<in> set (fst (get_fire_at_between s e w))"
    by (auto simp: get_fire_at_between_set)
qed

section \<open>The range query\<close>

text \<open>
  Claim C3, as amended. In every state whose time index is sound and complete (each
  stored device is filed in the bucket of its \<open>fire_at\<close>, and nowhere else),
  \<open>get_fire_at_between s e\<close> returns exactly the stored devices with
  \<open>s \<le> fire_at \<le> e\<close>, both bounds included, also when \<open>s = e\<close>; in every state
  at all, the same call repeated at once returns the empty list, because the first call
  has removed the buckets of the range.
\<close>

theorem query_exact_when_indexed:
  assumes "index_sound w" and "index_complete w"
  shows "set (fst (get_fire_at_between s e w)) =
           {r. \<exists>u. map_of (by_uuid w) u = Some r \<and> s \<le> fire_at (heap w r) \<and> fire_at (heap w r) \<le> e}
         \<and> fst (get_fire_at_between s e (snd (get_fire_at_between s e w))) = []"
  using assms by (simp add: get_fire_at_between_exact get_fire_at_between_again)

theorem query_exact_when_indexed_witness:
  "index_sound world_a \<and> index_complete world_a \<and>
   set (fst (get_fire_at_between 101 110 world_a)) = {0} \<and>
   fst (get_fire_at_between 101 110 (snd (get_fire_at_between 101 110 world_a))) = []"
proof -
  have "{r. \<exists>u. map_of (by_uuid world_a) u = Some r \<and> (101::int) \<le> fire_at (heap world_a r)
          \<and> fire_at (heap world_a r) \<le> 110} = {0}"
    by (auto simp add: world_a_sel device_a_sel split: if_splits)
  with query_exact_when_indexed [OF world_a_sound world_a_complete, of 101 110]
  show ?thesis by (simp add: world_a_sound world_a_complete)
qed

text \<open>
  The claim as stated, for every store state, fails in the state a query leaves behind:
  device \<open>a\<close> is stored with \<open>fire_at = 110\<close>, and the query of \<open>[110, 110]\<close>
  returns nothing.
\<close>

theorem query_after_claim_counterexample:
  "map_of (by_uuid (snd (get_fire_at_between 110 110 world_a))) ''a'' = Some 0 \<and>
   fire_at (heap (snd (get_fire_at_between 110 110 world_a)) 0) = 110 \<and>
   fst (get_fire_at_between 110 110 (snd (get_fire_at_between 110 110 world_a))) = []"
  by (simp add: get_fire_at_between_again world_a_sel device_a_sel)

section \<open>Scopes and handlers\<close>

lemma fold_add_heap [simp]: "heap (fold add rs w) = heap w"
  by (induction rs arbitrary: w) simp_all

lemma fold_add_log [simp]: "log (fold add rs w) = log w"
  by (induction rs arbitrary: w) simp_all

lemma uow_enter_fst [simp]:
  "fst (uow_enter (u, w)) = u\<lparr>backup := Some (by_uuid w), devices_bound := True\<rparr>"
  by (simp add: uow_enter_def get_all_by_uuid_def)

lemma uow_enter_frame [simp]:
  "heap (snd (uow_enter (u, w))) = heap w" "by_uuid (snd (uow_enter (u, w))) = by_uuid w"
  "by_fire_at (snd (uow_enter (u, w))) = by_fire_at w" "log (snd (uow_enter (u, w))) = log w"
  by (simp_all add: uow_enter_def get_all_by_uuid_def)

lemma rollback_fst [simp]: "fst (rollback (u, w)) = u"
  by (simp add: rollback_def split: option.splits)

lemma rollback_snd:
  "snd (rollback (u, w)) = (case backup u of None \<Rightarrow> w | Some b \<Rightarrow> fold add (map snd b) (remove_all w))"
  by (simp add: rollback_def split: option.splits)

lemma push_event_sel [simp]:
  "by_uuid (push_event r ev w) = by_uuid w" "by_fire_at (push_event r ev w) = by_fire_at w"
  "log (push_event r ev w) = log w"
  "heap (push_event r ev w) = (heap w)(r := (heap w r)\<lparr>events := events (heap w r) @ [ev]\<rparr>)"
  by (simp_all add: push_event_def)

text \<open>
  Claim C2 says that the register handler builds a device whose \<open>created_at\<close> is the
  current time in seconds, with \<open>fire_at = created_at + ttl\<close> and one queued event, and
  returns. The handler hands the \<open>datetime\<close> object itself to \<open>Device.__init__\<close>
  (the keep-alive handler converts with \<open>int(\<dots>.timestamp())\<close>), so the addition
  raises: for every command, clock reading and state the handler ends with
  \<open>TypeError\<close>.
\<close>

theorem register_device_raises:
  "fst (register_device now (RegisterDeviceCommand cu cn cl ct) s) = Some TypeError"
  by (simp add: register_device_def Device_init_def split: prod.splits)

text \<open>
  Claim C7 says that each of the three command types has a handler in the mapping. The
  mapping of \<^verbatim>\<open>bootstrap.py\<close> files the remove handler under \<open>ConsumerCommand\<close>:
  \<open>RemoveDeviceCommand\<close> has no entry, and dispatching one raises \<open>KeyError\<close> at
  the lookup, in every state.
\<close>

theorem remove_command_has_no_handler:
  "COMMAND_HANDLERS now RemoveDeviceCommand_t = None \<and>
   handle (bootstrap now) (Cmd (RemoveDeviceCommand u)) s =
     Some (Some KeyError, log_line (Exception_handling_command (RemoveDeviceCommand u)) s)"
  by (simp add: handle_def handle_loop.simps handle_command_def bootstrap_def COMMAND_HANDLERS_def)

lemma empty_world_sel:
  "heap empty_world = (\<lambda>r. device_a)" "by_uuid empty_world = []"
  "by_fire_at empty_world = Map.empty"
  by (simp_all add: empty_world_def)

lemma remove_device_ok:
  assumes "map_of (by_uuid w) (cmd_uuid cmd) = Some r"
  shows "fst (remove_device cmd (u, w)) = None"
    and "snd (snd (remove_device cmd (u, w))) =
           fold add (map snd (by_uuid w))
             (remove_all (generate_event_remove_device r
                (remove (uuid (heap w r)) (snd (get (cmd_uuid cmd) (snd (uow_enter (u, w))))))))"
  using assms
  by (simp_all add: remove_device_def uow_exit_def commit_def rollback_def case_prod_unfold
      split: option.splits)

text \<open>
  Claim C1 says that what a scope did persists once it has called \<open>commit\<close> and
  exited. \<open>__exit__\<close> calls \<open>rollback\<close> on every exit, \<open>commit\<close> does nothing,
  and \<open>_backup\<close> is never \<open>None\<close>, so the guard of \<open>rollback\<close> never holds: a
  device added to the empty repository in a committed scope is gone after the scope, and
  the device that the remove handler removed is back in the repository after it.
\<close>

theorem committed_scope_is_rolled_back:
  "by_uuid (snd (uow_exit (commit (fst (uow_enter (new_uow, empty_world)),
       add 0 (snd (uow_enter (new_uow, empty_world))))))) = [] \<and>
   fst (remove_device (RemoveDeviceCommand ''a'') (new_uow, world_a)) = None \<and>
   map_of (by_uuid (snd (snd (remove_device (RemoveDeviceCommand ''a'') (new_uow, world_a))))) ''a'' = Some 0"
proof -
  have 1: "by_uuid (snd (uow_exit (commit (fst (uow_enter (new_uow, empty_world)),
       add 0 (snd (uow_enter (new_uow, empty_world))))))) = []"
    by (simp add: uow_exit_def commit_def rollback_snd empty_world_sel)
  have r: "map_of (by_uuid world_a) (cmd_uuid (RemoveDeviceCommand ''a'')) = Some 0"
    by (simp add: world_a_sel)
  have 2: "map_of (by_uuid (snd (snd (remove_device (RemoveDeviceCommand ''a'') (new_uow, world_a))))) ''a'' = Some 0"
    by (simp add: remove_device_ok(2) [OF r] world_a_sel device_a_sel generate_event_remove_device_def)
  from 1 2 remove_device_ok(1) [OF r] show ?thesis by simp
qed

text \<open>
  Claim C5 says that a rollback restores the devices with the field values they had at
  scope entry. The backup is a shallow copy of \<open>by_uuid\<close>: it holds the device objects
  themselves, so what \<open>update\<close> wrote into a device stays after \<open>rollback\<close>. Device
  \<open>a\<close> enters the scope with \<open>fire_at = 110\<close>, is updated to 200, and after the
  rollback is stored with 200.
\<close>

theorem rollback_keeps_update:
  "fire_at (heap world_a 0) = 110 \<and>
   fire_at (heap (snd (rollback (fst (uow_enter (new_uow, world_a)),
        update ''a'' (no_fields\<lparr>f_fire_at := Some 200\<rparr>) (snd (uow_enter (new_uow, world_a)))))) 0) = 200 \<and>
   by_uuid (snd (rollback (fst (uow_enter (new_uow, world_a)),
        update ''a'' (no_fields\<lparr>f_fire_at := Some 200\<rparr>) (snd (uow_enter (new_uow, world_a)))))) = [(''a'', 0)]"
  by (simp add: rollback_snd world_a_sel device_a_sel no_fields_def)

section \<open>Dispatch\<close>

lemma events_only_simps [simp]:
  "events_only []" "events_only (Evt ev # q) = events_only q"
  "events_only (q @ map Evt evs) = events_only q"
  by (auto simp: events_only_def)














text \<open>
  Claim C9, as amended. An event whose type maps to the empty handler list is a no-op:
  no handler runs, nothing is raised, and the loop goes on with the rest of the queue in
  the same state. An event whose type has no entry in the mapping raises \<open>KeyError\<close>
  out of \<open>handle\<close>, in the state the event found, and the rest of the queue is dropped.
\<close>

theorem event_without_entry:
  "(event_handlers b (type_of_event ev) = Some [] \<longrightarrow>
      handle_loop b (Evt ev # queue) s = handle_loop b queue s) \<and>
   (event_handlers b (type_of_event ev) = None \<longrightarrow>
      handle_loop b (Evt ev # queue) s = Some (Some KeyError, s))"
proof -
  have "handle_loop b (Evt ev # queue) s =
      (case handle_event b ev queue s of
         (Some e, queue1, s1) \<Rightarrow> Some (Some e, s1)
       | (None, queue1, s1) \<Rightarrow> handle_loop b queue1 s1)"
    by (subst handle_loop.simps) simp
  then show ?thesis by (simp add: handle_event_def)
qed

theorem event_without_entry_witness:
  "event_handlers \<lparr>event_handlers = [RemoveDeviceEvent_t \<mapsto> []], command_handlers = Map.empty\<rparr>
      (type_of_event (RemoveDeviceEvent ''a'')) = Some [] \<and>
   handle \<lparr>event_handlers = [RemoveDeviceEvent_t \<mapsto> []], command_handlers = Map.empty\<rparr>
      (Evt (RemoveDeviceEvent ''a'')) (new_uow, empty_world) = Some (None, (new_uow, empty_world))"
  using event_without_entry [of "\<lparr>event_handlers = [RemoveDeviceEvent_t \<mapsto> []], command_handlers = Map.empty\<rparr>"
      "RemoveDeviceEvent ''a''" "[]" "(new_uow, empty_world)"]
  by (simp add: handle_def handle_loop.simps)

text \<open>
  The claim as stated, a missing entry as a safe no-op, fails: the dispatch of an event
  without entry raises, also when more messages wait in the queue.
\<close>

theorem event_without_entry_raises:
  "handle ((bootstrap 0)\<lparr>event_handlers := Map.empty\<rparr>) (Evt (RemoveDeviceEvent ''a''))
      (new_uow, empty_world) = Some (Some KeyError, (new_uow, empty_world)) \<and>
   handle_loop ((bootstrap 0)\<lparr>event_handlers := Map.empty\<rparr>)
      [Evt (RemoveDeviceEvent ''a''), Evt (RemoveDeviceEvent ''b'')]
      (new_uow, empty_world) = Some (Some KeyError, (new_uow, empty_world))"
  by (simp add: handle_def handle_loop.simps handle_event_def)

section \<open>The invariants are kept\<close>

lemma keyed_map_of:
  "keyed w \<Longrightarrow> map_of (by_uuid w) u = Some r \<Longrightarrow> uuid (heap w r) = u"
  by (auto simp: keyed_def dest: map_of_SomeD)

lemma keyedI:
  "distinct (map fst (by_uuid w)) \<Longrightarrow>
   (\<And>u r. map_of (by_uuid w) u = Some r \<Longrightarrow> uuid (heap w r) = u) \<Longrightarrow> keyed w"
  by (auto simp: keyed_def)

lemma index_soundD:
  "index_sound w \<Longrightarrow> by_fire_at w t = Some b \<Longrightarrow> u \<in> set b \<Longrightarrow>
     \<exists>r. map_of (by_uuid w) u = Some r \<and> fire_at (heap w r) = t"
  unfolding index_sound_def by blast

lemma discard_from_apply:
  "discard_from t u m t' =
     (if t' = t then (if removeAll u (bucket_at m t) = [] then None
                      else Some (removeAll u (bucket_at m t)))
      else m t')"
  by (simp add: discard_from_def bucket_discard_def Let_def)

lemma in_bucket_at: "u \<in> set (bucket_at m t) \<Longrightarrow> \<exists>b. m t = Some b \<and> u \<in> set b"
  by (cases "m t") (auto simp: bucket_at_def)

lemma set_bucket_add [simp]: "set (bucket_add u b) = insert u (set b)"
  by (auto simp: bucket_add_def)

lemma bucket_add_not_Nil [simp]: "bucket_add u b \<noteq> []"
  by (auto simp: bucket_add_def)

lemma keyed_add:
  assumes "keyed w" and "map_of (by_uuid w) (uuid (heap w r)) = None"
  shows "keyed (add r w)"
proof (rule keyedI)
  show "distinct (map fst (by_uuid (add r w)))"
    using assms(1) by (simp add: keyed_def distinct_update)
next
  fix u r' assume "map_of (by_uuid (add r w)) u = Some r'"
  then show "uuid (heap (add r w) r') = u"
    using assms(1) by (auto simp: update_conv' keyed_map_of split: if_splits)
qed

lemma index_sound_add:
  assumes "index_sound w" and "map_of (by_uuid w) (uuid (heap w r)) = None"
  shows "index_sound (add r w)"
  unfolding index_sound_def
proof (intro allI impI ballI)
  fix t b u assume b: "by_fire_at (add r w) t = Some b" and u: "u \<in> set b"
  show "\<exists>r'. map_of (by_uuid (add r w)) u = Some r' \<and> fire_at (heap (add r w) r') = t"
  proof (cases "u = uuid (heap w r)")
    case True
    have "t = fire_at (heap w r)"
    proof (rule ccontr)
      assume "t \<noteq> fire_at (heap w r)"
      with b have "by_fire_at w t = Some b" by simp
      from index_soundD [OF assms(1) this u] assms(2) True show False by simp
    qed
    with True show ?thesis by (simp add: update_conv')
  next
    case False
    with b u have "u \<in> set (bucket_at (by_fire_at w) t)"
      by (auto simp: bucket_at_def split: if_splits)
    then obtain b' where "by_fire_at w t = Some b'" "u \<in> set b'"
      by (auto dest: in_bucket_at)
    from index_soundD [OF assms(1) this] False show ?thesis by (simp add: update_conv')
  qed
qed

lemma no_empty_bucket_add: "no_empty_bucket w \<Longrightarrow> no_empty_bucket (add r w)"
  by (simp add: no_empty_bucket_def)

lemma keyed_update: "keyed w \<Longrightarrow> keyed (update u fs w)"
  by (auto simp: keyed_def split: option.splits)

lemma keyed_distinct_refs:
  "keyed w \<Longrightarrow> map_of (by_uuid w) u = Some r \<Longrightarrow> map_of (by_uuid w) u' = Some r \<Longrightarrow> u' = u"
  by (auto dest: keyed_map_of)

lemma index_sound_update:
  assumes k: "keyed w" and s: "index_sound w"
  shows "index_sound (update u fs w)"
proof (cases "map_of (by_uuid w) u")
  case None
  with s show ?thesis by (simp add: index_sound_def)
next
  case (Some r)
  let ?old = "fire_at (heap w r)"
  let ?h = "(heap w)(r := setattrs fs (heap w r))"
  have other: "\<And>u' r'. u' \<noteq> u \<Longrightarrow> map_of (by_uuid w) u' = Some r' \<Longrightarrow> ?h r' = heap w r'"
    using keyed_distinct_refs [OF k Some] by auto
  show ?thesis
  proof (cases "f_fire_at fs")
    case None
    show ?thesis unfolding index_sound_def
    proof (intro allI impI ballI)
      fix t b u' assume "by_fire_at (update u fs w) t = Some b" "u' \<in> set b"
      with Some None have "by_fire_at w t = Some b" "u' \<in> set b" by simp_all
      from index_soundD [OF s this] obtain r' where
        r': "map_of (by_uuid w) u' = Some r'" "fire_at (heap w r') = t" by blast
      with Some None show "\<exists>r'. map_of (by_uuid (update u fs w)) u' = Some r'
          \<and> fire_at (heap (update u fs w) r') = t"
        by (cases "r' = r") auto
    qed
  next
    case (Some new)
    note new = this
    show ?thesis
    proof (cases "new = ?old")
      case True
      show ?thesis unfolding index_sound_def
      proof (intro allI impI ballI)
        fix t b u' assume "by_fire_at (update u fs w) t = Some b" "u' \<in> set b"
        with \<open>map_of (by_uuid w) u = Some r\<close> new True
        have "by_fire_at w t = Some b" "u' \<in> set b" by simp_all
        from index_soundD [OF s this] obtain r' where
          r': "map_of (by_uuid w) u' = Some r'" "fire_at (heap w r') = t" by blast
        with \<open>map_of (by_uuid w) u = Some r\<close> new True
        show "\<exists>r'. map_of (by_uuid (update u fs w)) u' = Some r'
            \<and> fire_at (heap (update u fs w) r') = t"
          by (cases "r' = r") auto
      qed
    next
      case False
      let ?m = "discard_from ?old u (by_fire_at w)"
      have idx: "by_fire_at (update u fs w) = ?m(new \<mapsto> bucket_add u (bucket_at ?m new))"
        using \<open>map_of (by_uuid w) u = Some r\<close> new False by (simp add: Let_def)
      have hp: "heap (update u fs w) = ?h"
        using \<open>map_of (by_uuid w) u = Some r\<close> by simp
      show ?thesis unfolding index_sound_def
      proof (intro allI impI ballI)
        fix t b u' assume b: "by_fire_at (update u fs w) t = Some b" and u': "u' \<in> set b"
        show "\<exists>r'. map_of (by_uuid (update u fs w)) u' = Some r'
            \<and> fire_at (heap (update u fs w) r') = t"
        proof (cases "u' = u")
          case True
          have "t = new"
          proof (rule ccontr)
            assume tn: "t \<noteq> new"
            with b idx have mt: "?m t = Some b" by simp
            show False
            proof (cases "t = ?old")
              case True
              with mt u' \<open>u' = u\<close> show False
                by (auto simp: discard_from_apply split: if_splits)
            next
              case False
              with mt have "by_fire_at w t = Some b" by (simp add: discard_from_apply)
              from index_soundD [OF s this u'] \<open>u' = u\<close> \<open>map_of (by_uuid w) u = Some r\<close> False
              show False by simp
            qed
          qed
          with True \<open>map_of (by_uuid w) u = Some r\<close> new hp show ?thesis by simp
        next
          case False
          note ne = this
          have "\<exists>b'. by_fire_at w t = Some b' \<and> u' \<in> set b'"
          proof (cases "t = new")
            case True
            with b idx u' ne have "u' \<in> set (bucket_at ?m new)" by auto
            with \<open>new \<noteq> ?old\<close> have "u' \<in> set (bucket_at (by_fire_at w) new)"
              by (simp add: bucket_at_def discard_from_apply)
            with True show ?thesis by (auto dest: in_bucket_at)
          next
            case False
            with b idx have mt: "?m t = Some b" by simp
            with u' show ?thesis
              by (auto simp: discard_from_apply dest: in_bucket_at split: if_splits)
          qed
          then obtain b' where "by_fire_at w t = Some b'" "u' \<in> set b'" by blast
          from index_soundD [OF s this] obtain r' where
            r': "map_of (by_uuid w) u' = Some r'" "fire_at (heap w r') = t" by blast
          with other [OF ne r'(1)] hp show ?thesis by simp
        qed
      qed
    qed
  qed
qed

lemma no_empty_bucket_update: "no_empty_bucket w \<Longrightarrow> no_empty_bucket (update u fs w)"
  by (auto simp: no_empty_bucket_def Let_def discard_from_apply split: option.splits)

lemma keyed_remove:
  assumes "keyed w" shows "keyed (remove u w)"
proof (rule keyedI)
  show "distinct (map fst (by_uuid (remove u w)))"
    using assms by (simp add: keyed_def distinct_delete)
next
  fix u' r assume "map_of (by_uuid (remove u w)) u' = Some r"
  then have "map_of (by_uuid w) u' = Some r"
    by (auto simp: delete_conv' split: if_splits)
  with assms show "uuid (heap (remove u w) r) = u'" by (simp add: keyed_map_of)
qed

lemma index_sound_remove:
  assumes s: "index_sound w"
  shows "index_sound (remove u w)"
proof (cases "map_of (by_uuid w) u")
  case None
  with s show ?thesis by (simp add: index_sound_def delete_absent)
next
  case (Some r)
  show ?thesis unfolding index_sound_def
  proof (intro allI impI ballI)
    fix t b u' assume b: "by_fire_at (remove u w) t = Some b" and u': "u' \<in> set b"
    from b Some have m: "discard_from (fire_at (heap w r)) u (by_fire_at w) t = Some b" by simp
    have "u' \<in> set (bucket_at (by_fire_at w) t) \<and> (t = fire_at (heap w r) \<longrightarrow> u' \<noteq> u)"
      using m u' by (auto simp: discard_from_apply bucket_at_def split: if_splits)
    then obtain b' where b': "by_fire_at w t = Some b'" "u' \<in> set b'"
      and ne: "t = fire_at (heap w r) \<longrightarrow> u' \<noteq> u"
      by (auto dest: in_bucket_at)
    from index_soundD [OF s b'] obtain r' where
      r': "map_of (by_uuid w) u' = Some r'" "fire_at (heap w r') = t" by blast
    have "u' \<noteq> u"
    proof
      assume "u' = u"
      with r' Some have "t = fire_at (heap w r)" by simp
      with ne \<open>u' = u\<close> show False by simp
    qed
    with r' show "\<exists>r'. map_of (by_uuid (remove u w)) u' = Some r' \<and> fire_at (heap (remove u w) r') = t"
      by simp
  qed
qed

lemma no_empty_bucket_remove: "no_empty_bucket w \<Longrightarrow> no_empty_bucket (remove u w)"
  by (auto simp: no_empty_bucket_def discard_from_apply split: option.splits)

lemma keyed_remove_all: "keyed (remove_all w)"
  by (simp add: keyed_def)

lemma index_sound_remove_all: "index_sound w \<Longrightarrow> index_sound (remove_all w)"
  by (auto simp: index_sound_def)

lemma no_empty_bucket_remove_all: "no_empty_bucket w \<Longrightarrow> no_empty_bucket (remove_all w)"
  by (simp add: no_empty_bucket_def)

lemma keyed_query: "keyed w \<Longrightarrow> keyed (snd (get_fire_at_between s e w))"
  by (simp add: keyed_def)

lemma index_sound_query: "index_sound w \<Longrightarrow> index_sound (snd (get_fire_at_between s e w))"
  by (auto simp: index_sound_def get_fire_at_between_index split: if_splits)

lemma no_empty_bucket_query:
  "no_empty_bucket w \<Longrightarrow> no_empty_bucket (snd (get_fire_at_between s e w))"
  by (simp add: no_empty_bucket_def get_fire_at_between_index)

lemma invariants_frame:
  assumes "heap w' = heap w" "by_uuid w' = by_uuid w" "by_fire_at w' = by_fire_at w"
  shows "keyed w' = keyed w" "index_sound w' = index_sound w"
    "no_empty_bucket w' = no_empty_bucket w" "index_complete w' = index_complete w"
  using assms by (simp_all add: keyed_def index_sound_def no_empty_bucket_def index_complete_def)

lemma well_formed_iff: "well_formed w \<longleftrightarrow> keyed w \<and> index_sound w \<and> no_empty_bucket w"
  by (simp add: well_formed_def consistent_def)

lemma reachable_well_formed: "reachable w \<Longrightarrow> well_formed w"
proof (induction rule: reachable.induct)
  case (by_init w)
  then show ?case
    by (simp add: well_formed_iff keyed_def index_sound_def no_empty_bucket_def)
next
  case (by_add w r)
  then show ?case
    by (simp add: well_formed_iff keyed_add index_sound_add no_empty_bucket_add)
next
  case (by_update w u fs)
  then show ?case
    by (simp add: well_formed_iff keyed_update index_sound_update no_empty_bucket_update)
next
  case (by_remove w u)
  then show ?case
    by (simp add: well_formed_iff keyed_remove index_sound_remove no_empty_bucket_remove)
next
  case (by_remove_all w)
  then show ?case
    by (simp add: well_formed_iff keyed_remove_all index_sound_remove_all no_empty_bucket_remove_all)
next
  case (by_get_fire_at_between w s e)
  then show ?case
    by (simp add: well_formed_iff keyed_query index_sound_query no_empty_bucket_query)
next
  case (by_get w u)
  then show ?case
    by (simp add: well_formed_iff invariants_frame [of "snd (get u w)" w])
next
  case (by_get_all_by_uuid w)
  then show ?case
    by (simp add: well_formed_iff invariants_frame [of "snd (get_all_by_uuid w)" w])
qed

lemma world_a_reachable: "reachable world_a"
  unfolding world_a_def
  by (rule reachable.by_add [OF reachable.by_init]) (simp_all add: empty_world_def)

text \<open>
  Claim C10. In every state that \<open>add\<close> (of a device whose uuid is not yet stored),
  \<open>update\<close>, \<open>remove\<close>, \<open>remove_all\<close>, \<open>get_fire_at_between\<close> and the two
  getters reach from the empty repository, every uuid in a bucket \<open>by_fire_at[t]\<close> is a
  key of \<open>by_uuid\<close> whose device has \<open>fire_at = t\<close>, and no bucket is empty. The
  keyword arguments of \<open>update\<close> are any attributes but \<open>uuid\<close>, which the signature
  of \<open>update\<close> keeps for the positional parameter.
\<close>

theorem reachable_indexes_consistent:
  assumes "reachable w"
  shows "\<forall>t b. by_fire_at w t = Some b \<longrightarrow>
           b \<noteq> [] \<and> (\<forall>u \<in> set b. \<exists>r. map_of (by_uuid w) u = Some r \<and> fire_at (heap w r) = t)"
proof -
  from reachable_well_formed [OF assms] have "index_sound w" "no_empty_bucket w"
    by (simp_all add: well_formed_iff)
  then show ?thesis
    unfolding index_sound_def no_empty_bucket_def by blast
qed

theorem reachable_indexes_consistent_witness:
  "reachable (snd (get_fire_at_between 0 105 (update ''a'' (no_fields\<lparr>f_fire_at := Some 200\<rparr>) world_a))) \<and>
   consistent (snd (get_fire_at_between 0 105 (update ''a'' (no_fields\<lparr>f_fire_at := Some 200\<rparr>) world_a)))"
proof -
  let ?w = "snd (get_fire_at_between 0 105 (update ''a'' (no_fields\<lparr>f_fire_at := Some 200\<rparr>) world_a))"
  have r: "reachable ?w"
    by (intro reachable.by_get_fire_at_between reachable.by_update world_a_reachable)
  from reachable_indexes_consistent [OF r] have "consistent ?w"
    unfolding consistent_def index_sound_def no_empty_bucket_def by blast
  with r show ?thesis by simp
qed

section \<open>What a rollback leaves\<close>







section \<open>Keep-alive\<close>

lemma invariants_heap_cong:
  assumes "\<And>r. uuid (heap w' r) = uuid (heap w r)" "\<And>r. fire_at (heap w' r) = fire_at (heap w r)"
    and "by_uuid w' = by_uuid w" "by_fire_at w' = by_fire_at w"
  shows "keyed w' = keyed w" "index_sound w' = index_sound w"
    "no_empty_bucket w' = no_empty_bucket w" "index_complete w' = index_complete w"
  using assms by (simp_all add: keyed_def index_sound_def no_empty_bucket_def index_complete_def)

lemma invariants_push_event [simp]:
  "keyed (push_event r ev w) = keyed w"
  "index_sound (push_event r ev w) = index_sound w"
  "no_empty_bucket (push_event r ev w) = no_empty_bucket w"
  "index_complete (push_event r ev w) = index_complete w"
  by (rule invariants_heap_cong; simp)+


lemma params_sel [simp]:
  "f_fire_at (no_fields\<lparr>f_fire_at := Some f\<rparr>) = Some f"
  "f_events (no_fields\<lparr>f_fire_at := Some f\<rparr>) = None"
  by (simp_all add: no_fields_def)

lemma setattrs_events [simp]:
  "events (setattrs fs d) = (case f_events fs of None \<Rightarrow> events d | Some v \<Rightarrow> v)"
  by (simp add: setattrs_def)



lemma keyed_add_any:
  assumes "keyed w" shows "keyed (add r w)"
proof (rule keyedI)
  show "distinct (map fst (by_uuid (add r w)))"
    using assms by (simp add: keyed_def distinct_update)
next
  fix u r' assume "map_of (by_uuid (add r w)) u = Some r'"
  then show "uuid (heap (add r w) r') = u"
    using assms by (auto simp: update_conv' keyed_map_of split: if_splits)
qed





section \<open>The poller\<close>












end
